theory Spec2Isabelle
  imports Main
begin

section \<open>The shell of \<^verbatim>\<open>main.c\<close>: state, streams and system calls\<close>

text \<open>
  The program is a read-tokenize-dispatch loop over the standard streams. Its state is
  made explicit: the unread part of standard input, everything written so far to standard
  output and to standard error, and the state of the operating system as far as the
  process sees it (working directory, file system), of an arbitrary type \<open>'k\<close>.
  Standard output and standard error are modelled unbuffered.

  A string is the content of a C string: the characters before its terminating NUL.
  The buffer returned by the line reader is the one place where a NUL can sit inside the
  data; \<open>c_str\<close> gives the C string that a list of characters holds, and \<^verbatim>\<open>strtok\<close> and
  \<^verbatim>\<open>strcmp\<close> stop at a NUL as the C library does.

  The repository holds the program twice, once with the prefix \<^verbatim>\<open>lsh_\<close> and once with
  \<^verbatim>\<open>mmsh_\<close>; the second copy also writes \<^verbatim>\<open>mmsh\<close> for \<^verbatim>\<open>lsh\<close> at the head of its error
  messages. The names and the messages here are those of \<^verbatim>\<open>main.c\<close>.

  The counters of the source (\<^verbatim>\<open>position\<close>, \<^verbatim>\<open>bufsize\<close>, \<^verbatim>\<open>i\<close>) are C \<^verbatim>\<open>int\<close>s that only
  count upwards from 0; they are natural numbers here, which is the source's arithmetic
  for lines shorter than \<open>2^31 - 1024\<close> characters.
\<close>

record 'k world =
  inp :: string
  out :: string
  err :: string
  kern :: 'k

type_synonym errno = nat

text \<open>
  What \<^verbatim>\<open>waitpid(pid, &status, WUNTRACED)\<close> stores in \<^verbatim>\<open>status\<close>: the child exited with a
  code, was killed by a signal, or was stopped by a signal.
\<close>

datatype wstatus = WExited nat | WSignaled nat | WStopped nat

fun WIFEXITED :: "wstatus \<Rightarrow> bool" where
  "WIFEXITED (WExited c) = True"
| "WIFEXITED (WSignaled s) = False"
| "WIFEXITED (WStopped s) = False"

fun WIFSIGNALED :: "wstatus \<Rightarrow> bool" where
  "WIFSIGNALED (WExited c) = False"
| "WIFSIGNALED (WSignaled s) = True"
| "WIFSIGNALED (WStopped s) = False"

text \<open>
  The run of a child process as its parent observes it: how much of the shared standard
  input it consumed, what it wrote to the shared output and error streams, the state it
  left the operating system in, and the state changes that successive \<^verbatim>\<open>waitpid\<close> calls
  report, in order. Each \<^verbatim>\<open>waitpid\<close> call is taken to succeed: the child exists and the
  shell installs no signal handler. When the reports run out without an exit or a kill,
  the next \<^verbatim>\<open>waitpid\<close> never returns.
\<close>

record 'k child_run =
  consumed :: nat
  child_out :: string
  child_err :: string
  child_kern :: 'k
  reports :: "wstatus list"

text \<open>
  The answers of the C library and the operating system, which the source calls but does
  not define. A failing call yields its \<^verbatim>\<open>errno\<close> (\<open>Inl\<close>) and changes nothing; a
  successful \<^verbatim>\<open>chdir\<close> or \<^verbatim>\<open>mkdir\<close> yields the new system state. \<open>os_opendir\<close> gives the
  entry names that the \<^verbatim>\<open>readdir\<close> calls on the opened directory return, in order.
  \<open>os_fork\<close> is \<open>Some errno\<close> when no process can be created. \<open>os_execvp os args\<close> is
  \<^verbatim>\<open>execvp(args[0], args)\<close>: the run of the program that replaces the child, or the
  \<^verbatim>\<open>errno\<close> of a failed call.
  \<open>alloc_ok n\<close> tells whether \<^verbatim>\<open>malloc\<close> or \<^verbatim>\<open>realloc\<close> grants \<open>n\<close> bytes. \<open>stack_garbage\<close>
  is what the uninitialised array \<^verbatim>\<open>char cwd[1024]\<close> of \<^verbatim>\<open>lsh_pwd\<close> reads as.
\<close>

record 'k os =
  strerror :: "errno \<Rightarrow> string"
  os_getcwd :: "'k \<Rightarrow> nat \<Rightarrow> errno + string"
  os_chdir :: "'k \<Rightarrow> string \<Rightarrow> errno + 'k"
  os_mkdir :: "'k \<Rightarrow> string \<Rightarrow> nat \<Rightarrow> errno + 'k"
  os_opendir :: "'k \<Rightarrow> string \<Rightarrow> errno + string list"
  os_fork :: "'k world \<Rightarrow> errno option"
  os_execvp :: "string option list \<Rightarrow> 'k world \<Rightarrow> errno + 'k child_run"
  alloc_ok :: "nat \<Rightarrow> bool"
  sizeof_ptr :: nat
  stack_garbage :: string

text \<open>
  How a call ends: it returns a value, or the whole process ends with an exit status
  (\<^verbatim>\<open>exit\<close>), or it never returns (a \<^verbatim>\<open>waitpid\<close> that blocks for ever).
\<close>

datatype ('a, 'k) outcome = Ret 'a "'k world" | Exit int "'k world" | Blocked

definition EXIT_SUCCESS :: int where
  "EXIT_SUCCESS = 0"

definition EXIT_FAILURE :: int where
  "EXIT_FAILURE = 1"

definition print_out :: "string \<Rightarrow> 'k world \<Rightarrow> 'k world" where
  "print_out s w = w\<lparr>out := out w @ s\<rparr>"

definition print_err :: "string \<Rightarrow> 'k world \<Rightarrow> 'k world" where
  "print_err s w = w\<lparr>err := err w @ s\<rparr>"

text \<open>\<^verbatim>\<open>perror(s)\<close>: the prefix, a colon and a space, the message of \<^verbatim>\<open>errno\<close>, a newline.\<close>

definition perror :: "'k os \<Rightarrow> string \<Rightarrow> errno \<Rightarrow> 'k world \<Rightarrow> 'k world" where
  "perror os s e w = print_err (s @ '': '' @ strerror os e @ ''\<newline>'') w"

subsection \<open>Argument vectors\<close>

text \<open>
  A \<^verbatim>\<open>char **args\<close> is the list of its cells: \<open>Some t\<close> for a token, \<open>None\<close> for the
  \<^verbatim>\<open>NULL\<close> that ends it. \<open>cell args i\<close> reads \<^verbatim>\<open>args[i]\<close>. The source never reads past the
  first \<^verbatim>\<open>NULL\<close> of a vector that has one; a read past the last cell of the list yields
  \<^verbatim>\<open>NULL\<close> here.
\<close>

type_synonym argv = "string option list"

definition cell :: "argv \<Rightarrow> nat \<Rightarrow> string option" where
  "cell args i = (if i < length args then args ! i else None)"

text \<open>The C string that a buffer holds: its characters before the first NUL.\<close>

definition c_str :: "string \<Rightarrow> string" where
  "c_str buf = takeWhile (\<lambda>c. c \<noteq> CHR 0x00) buf"

text \<open>
  \<^verbatim>\<open>strcmp\<close>: the difference of the first pair of bytes that differ, 0 when both strings
  end together. The end of the list is the terminating NUL.
\<close>

fun strcmp :: "string \<Rightarrow> string \<Rightarrow> int" where
  "strcmp [] [] = 0"
| "strcmp [] (y # ys) = - int (of_char y)"
| "strcmp (x # xs) [] = int (of_char x)"
| "strcmp (x # xs) (y # ys) =
     (if x = y then (if x = CHR 0x00 then 0 else strcmp xs ys)
      else int (of_char x) - int (of_char y))"

section \<open>The builtin commands\<close>

definition builtin_str :: "string list" where
  "builtin_str = [''echo'', ''pwd'', ''ls'', ''mkdir'', ''cd'', ''help'', ''exit'']"

definition lsh_num_builtins :: nat where
  "lsh_num_builtins = length builtin_str"

text \<open>The loop of \<^verbatim>\<open>lsh_echo\<close>: from index \<open>i\<close> on, each argument followed by a space.\<close>

function echo_loop :: "argv \<Rightarrow> nat \<Rightarrow> 'k world \<Rightarrow> 'k world" where
  "echo_loop args i w =
     (case cell args i of
        None \<Rightarrow> w
      | Some a \<Rightarrow> echo_loop args (i + 1) (print_out (a @ '' '') w))"
  by pat_completeness auto
termination
  by (relation "measure (\<lambda>(args, i, w). length args - i)")
     (auto simp: cell_def split: if_splits)

declare echo_loop.simps [simp del]

definition lsh_echo :: "'k os \<Rightarrow> argv \<Rightarrow> 'k world \<Rightarrow> int \<times> 'k world" where
  "lsh_echo os args w = (1, print_out ''\<newline>'' (echo_loop args 1 w))"

text \<open>
  \<^verbatim>\<open>lsh_pwd\<close> does not look at what \<^verbatim>\<open>getcwd\<close> returns: after a failed call it prints the
  array as it finds it.
\<close>

definition lsh_pwd :: "'k os \<Rightarrow> argv \<Rightarrow> 'k world \<Rightarrow> int \<times> 'k world" where
  "lsh_pwd os args w =
     (let cwd = (case os_getcwd os (kern w) 1024 of
                   Inl e \<Rightarrow> stack_garbage os
                 | Inr d \<Rightarrow> d)
      in (1, print_out (''Current working dir: '' @ cwd @ ''\<newline>'') w))"

definition lsh_cd :: "'k os \<Rightarrow> argv \<Rightarrow> 'k world \<Rightarrow> int \<times> 'k world" where
  "lsh_cd os args w =
     (case cell args 1 of
        None \<Rightarrow> (1, print_err (''lsh: expected argument to '' @ [CHR 0x22] @ ''cd''
                               @ [CHR 0x22] @ ''\<newline>'') w)
      | Some path \<Rightarrow>
          (case os_chdir os (kern w) path of
             Inl e \<Rightarrow> (1, perror os ''lsh'' e w)
           | Inr k \<Rightarrow> (1, w\<lparr>kern := k\<rparr>)))"

fun readdir_loop :: "string list \<Rightarrow> 'k world \<Rightarrow> 'k world" where
  "readdir_loop [] w = w"
| "readdir_loop (d_name # rest) w = readdir_loop rest (print_out (d_name @ ''\<newline>'') w)"

definition lsh_ls :: "'k os \<Rightarrow> argv \<Rightarrow> 'k world \<Rightarrow> int \<times> 'k world" where
  "lsh_ls os args w =
     (case os_opendir os (kern w) ''./'' of
        Inr entries \<Rightarrow> (1, readdir_loop entries w)
      | Inl e \<Rightarrow> (1, perror os ''Couldn't open the directory'' e w))"

definition lsh_mkdir :: "'k os \<Rightarrow> argv \<Rightarrow> 'k world \<Rightarrow> int \<times> 'k world" where
  "lsh_mkdir os args w =
     (case cell args 1 of
        None \<Rightarrow> (1, print_err (''lsh: expected argument to '' @ [CHR 0x22] @ ''mkdir''
                               @ [CHR 0x22] @ ''\<newline>'') w)
      | Some path \<Rightarrow>
          (case os_mkdir os (kern w) path 493 of
             Inl e \<Rightarrow> (1, perror os ''lsh'' e w)
           | Inr k \<Rightarrow> (1, w\<lparr>kern := k\<rparr>)))"

function help_loop :: "nat \<Rightarrow> 'k world \<Rightarrow> 'k world" where
  "help_loop i w =
     (if i < lsh_num_builtins
      then help_loop (i + 1) (print_out (''  '' @ builtin_str ! i @ ''\<newline>'') w)
      else w)"
  by pat_completeness auto
termination
  by (relation "measure (\<lambda>(i, w). lsh_num_builtins - i)") auto

declare help_loop.simps [simp del]

definition lsh_help :: "'k os \<Rightarrow> argv \<Rightarrow> 'k world \<Rightarrow> int \<times> 'k world" where
  "lsh_help os args w =
     (let w1 = print_out ''Stephen Brennan's LSH\<newline>'' w;
          w2 = print_out ''Type program names and arguments, and hit enter.\<newline>'' w1;
          w3 = print_out ''The following are built in:\<newline>'' w2;
          w4 = help_loop 0 w3
      in (1, print_out ''Use the man command for information on other programs.\<newline>'' w4))"

definition lsh_exit :: "'k os \<Rightarrow> argv \<Rightarrow> 'k world \<Rightarrow> int \<times> 'k world" where
  "lsh_exit os args w = (0, w)"

definition builtin_func :: "('k os \<Rightarrow> argv \<Rightarrow> 'k world \<Rightarrow> int \<times> 'k world) list" where
  "builtin_func = [lsh_echo, lsh_pwd, lsh_ls, lsh_mkdir, lsh_cd, lsh_help, lsh_exit]"

section \<open>Launching a program\<close>

text \<open>
  The branch \<^verbatim>\<open>pid == 0\<close> of \<^verbatim>\<open>lsh_launch\<close>, run by the child: the world the child leaves
  behind and what \<^verbatim>\<open>waitpid\<close> reports about it. When \<^verbatim>\<open>execvp\<close> fails the child prints the
  error and exits with \<^verbatim>\<open>EXIT_FAILURE\<close>.
\<close>

definition lsh_launch_child :: "'k os \<Rightarrow> argv \<Rightarrow> 'k world \<Rightarrow> 'k world \<times> wstatus list" where
  "lsh_launch_child os args w =
     (case os_execvp os args w of
        Inl e \<Rightarrow> (perror os ''lsh'' e w, [WExited (nat EXIT_FAILURE)])
      | Inr r \<Rightarrow> (w\<lparr>inp := drop (consumed r) (inp w),
                     out := out w @ child_out r,
                     err := err w @ child_err r,
                     kern := child_kern r\<rparr>, reports r))"

text \<open>
  The \<^verbatim>\<open>do ... while\<close> of the parent over the reports still to come: \<open>None\<close> when
  \<^verbatim>\<open>waitpid\<close> blocks for ever, else the status the loop ends on.
\<close>

fun wait_loop :: "wstatus list \<Rightarrow> wstatus option" where
  "wait_loop [] = None"
| "wait_loop (status # later) =
     (if \<not> WIFEXITED status \<and> \<not> WIFSIGNALED status then wait_loop later else Some status)"

definition lsh_launch :: "'k os \<Rightarrow> argv \<Rightarrow> 'k world \<Rightarrow> (int, 'k) outcome" where
  "lsh_launch os args w =
     (case os_fork os w of
        Some e \<Rightarrow> Ret 1 (perror os ''lsh'' e w)
      | None \<Rightarrow>
          (case lsh_launch_child os args w of
             (w', rep) \<Rightarrow>
               (case wait_loop rep of
                  None \<Rightarrow> Blocked
                | Some status \<Rightarrow> Ret 1 w')))"

section \<open>Dispatch\<close>

text \<open>
  The \<^verbatim>\<open>for\<close> loop of \<^verbatim>\<open>lsh_execute\<close> from index \<open>i\<close> on: the result of the first builtin
  whose name compares equal to \<open>a0\<close>, or \<open>None\<close> when the loop maximal_runs to its end.
\<close>

function builtin_loop ::
  "'k os \<Rightarrow> argv \<Rightarrow> string \<Rightarrow> nat \<Rightarrow> 'k world \<Rightarrow> (int \<times> 'k world) option" where
  "builtin_loop os args a0 i w =
     (if i < lsh_num_builtins
      then (if strcmp a0 (builtin_str ! i) = 0
            then Some ((builtin_func ! i) os args w)
            else builtin_loop os args a0 (i + 1) w)
      else None)"
  by pat_completeness auto
termination
  by (relation "measure (\<lambda>(os, args, a0, i, w). lsh_num_builtins - i)") auto

declare builtin_loop.simps [simp del]

definition lsh_execute :: "'k os \<Rightarrow> argv \<Rightarrow> 'k world \<Rightarrow> (int, 'k) outcome" where
  "lsh_execute os args w =
     (case cell args 0 of
        None \<Rightarrow> Ret 1 w
      | Some a0 \<Rightarrow>
          (case builtin_loop os args a0 0 w of
             Some (r, w') \<Rightarrow> Ret r w'
           | None \<Rightarrow> lsh_launch os args w))"

section \<open>Reading a line\<close>

definition LSH_RL_BUFSIZE :: nat where
  "LSH_RL_BUFSIZE = 1024"

text \<open>\<^verbatim>\<open>getchar\<close>: the next character of standard input, \<open>None\<close> for \<^verbatim>\<open>EOF\<close>.\<close>

definition getchar :: "'k world \<Rightarrow> char option \<times> 'k world" where
  "getchar w = (case inp w of [] \<Rightarrow> (None, w) | c # cs \<Rightarrow> (Some c, w\<lparr>inp := cs\<rparr>))"

text \<open>
  The \<^verbatim>\<open>while (1)\<close> of \<^verbatim>\<open>lsh_read_line\<close>. \<open>buffer\<close> holds the characters stored so far, so
  \<^verbatim>\<open>position\<close> is its length.
\<close>

function read_loop :: "'k os \<Rightarrow> string \<Rightarrow> nat \<Rightarrow> 'k world \<Rightarrow> (string, 'k) outcome" where
  "read_loop os buffer bufsize w =
     (case getchar w of
        (None, w') \<Rightarrow> Exit EXIT_SUCCESS w'
      | (Some c, w') \<Rightarrow>
          if c = CHR ''\<newline>'' then Ret buffer w'
          else
            (let buffer' = buffer @ [c] in
             if length buffer' \<ge> bufsize
             then (if alloc_ok os (bufsize + LSH_RL_BUFSIZE)
                   then read_loop os buffer' (bufsize + LSH_RL_BUFSIZE) w'
                   else Exit EXIT_FAILURE (print_err ''lsh: allocation error\<newline>'' w'))
             else read_loop os buffer' bufsize w'))"
  by pat_completeness auto
termination
  by (relation "measure (\<lambda>(os, buffer, bufsize, w). length (inp w))")
     (auto simp: getchar_def split: list.splits)

declare read_loop.simps [simp del]

definition lsh_read_line :: "'k os \<Rightarrow> 'k world \<Rightarrow> (string, 'k) outcome" where
  "lsh_read_line os w =
     (if \<not> alloc_ok os LSH_RL_BUFSIZE
      then Exit EXIT_FAILURE (print_err ''lsh: allocation error\<newline>'' w)
      else read_loop os [] LSH_RL_BUFSIZE w)"

section \<open>Splitting a line\<close>

definition LSH_TOK_BUFSIZE :: nat where
  "LSH_TOK_BUFSIZE = 64"

definition LSH_TOK_DELIM :: string where
  "LSH_TOK_DELIM = [CHR '' '', CHR 0x09, CHR 0x0D, CHR ''\<newline>'', CHR 0x07]"

text \<open>
  \<^verbatim>\<open>strtok\<close> on the string at \<open>s\<close>: skip the leading delimiters; at the end of the string
  there is no token; else the token runs up to the next delimiter or the end, the
  delimiter is overwritten with NUL and the scan resumes behind it. The result is the
  token and the text that the next call \<^verbatim>\<open>strtok(NULL, delim)\<close> scans.
\<close>

definition strtok :: "string \<Rightarrow> string \<Rightarrow> (string \<times> string) option" where
  "strtok s delim =
     (let s1 = dropWhile (\<lambda>c. c \<in> set delim) (c_str s) in
      if s1 = [] then None
      else Some (takeWhile (\<lambda>c. c \<notin> set delim) s1,
                 drop 1 (dropWhile (\<lambda>c. c \<notin> set delim) s1)))"

lemma strtok_shorter:
  "strtok s delim = Some (token, saved) \<Longrightarrow> length saved < length s"
proof -
  assume a: "strtok s delim = Some (token, saved)"
  define s1 where "s1 = dropWhile (\<lambda>c. c \<in> set delim) (c_str s)"
  from a have ne: "s1 \<noteq> []" and sv: "saved = drop 1 (dropWhile (\<lambda>c. c \<notin> set delim) s1)"
    by (auto simp: strtok_def s1_def Let_def split: if_splits)
  have "length saved \<le> length s1 - 1"
    using sv length_dropWhile_le [of "\<lambda>c. c \<notin> set delim" s1] by simp
  moreover have "length s1 \<le> length (c_str s)"
    unfolding s1_def by (rule length_dropWhile_le)
  moreover have "length (c_str s) \<le> length s"
    unfolding c_str_def by (rule length_takeWhile_le)
  moreover have "0 < length s1" using ne by simp
  ultimately show ?thesis by linarith
qed

text \<open>
  The \<^verbatim>\<open>while (token != NULL)\<close> of \<^verbatim>\<open>lsh_split_line\<close>. \<open>r\<close> is the result of the last
  \<^verbatim>\<open>strtok\<close> call; \<open>tokens\<close> holds the cells stored so far, so \<^verbatim>\<open>position\<close> is its length.
\<close>

function split_loop ::
  "'k os \<Rightarrow> (string \<times> string) option \<Rightarrow> argv \<Rightarrow> nat \<Rightarrow> 'k world \<Rightarrow> (argv, 'k) outcome" where
  "split_loop os None tokens bufsize w = Ret (tokens @ [None]) w"
| "split_loop os (Some (token, saved)) tokens bufsize w =
     (let tokens' = tokens @ [Some token] in
      if length tokens' \<ge> bufsize
      then (if alloc_ok os ((bufsize + LSH_TOK_BUFSIZE) * sizeof_ptr os)
            then split_loop os (strtok saved LSH_TOK_DELIM) tokens'
                   (bufsize + LSH_TOK_BUFSIZE) w
            else Exit EXIT_FAILURE (print_err ''lsh: allocation error\<newline>'' w))
      else split_loop os (strtok saved LSH_TOK_DELIM) tokens' bufsize w)"
  by pat_completeness auto
termination
  by (relation "measure (\<lambda>(os, r, tokens, bufsize, w).
        case r of None \<Rightarrow> 0 | Some (t, s) \<Rightarrow> Suc (length s))")
     (auto split: option.splits dest: strtok_shorter)

definition lsh_split_line :: "'k os \<Rightarrow> string \<Rightarrow> 'k world \<Rightarrow> (argv, 'k) outcome" where
  "lsh_split_line os line w =
     (if \<not> alloc_ok os (LSH_TOK_BUFSIZE * sizeof_ptr os)
      then Exit EXIT_FAILURE (print_err ''lsh: allocation error\<newline>'' w)
      else split_loop os (strtok line LSH_TOK_DELIM) [] LSH_TOK_BUFSIZE w)"

section \<open>The loop\<close>

text \<open>
  Each round of \<^verbatim>\<open>lsh_loop\<close> that goes on to another round has read at least a newline
  from standard input, and neither a builtin nor a child process puts input back; this
  is why the loop ends on every finite input. The lemmas below give the loops of the
  builtins and of the dispatcher in closed form and bound the input that is left.
\<close>

lemma print_out_print_out: "print_out b (print_out a w) = print_out (a @ b) w"
  by (simp add: print_out_def)

lemma print_out_Nil: "print_out [] w = w"
  by (simp add: print_out_def)

definition echo_args :: "argv \<Rightarrow> nat \<Rightarrow> string list" where
  "echo_args args i = map the (takeWhile (\<lambda>c. c \<noteq> None) (drop i args))"

lemma echo_loop_eq:
  "echo_loop args i w = print_out (concat (map (\<lambda>a. a @ '' '') (echo_args args i))) w"
proof (induction args i w rule: echo_loop.induct)
  case (1 args i w)
  show ?case
  proof (cases "cell args i")
    case None
    then have "echo_args args i = []"
      by (auto simp: echo_args_def cell_def takeWhile_eq_Nil_iff hd_drop_conv_nth split: if_splits)
    with None show ?thesis
      by (subst echo_loop.simps) (simp add: print_out_Nil)
  next
    case (Some a)
    then have lt: "i < length args" and nth: "args ! i = Some a"
      by (auto simp: cell_def split: if_splits)
    then have "echo_args args i = a # echo_args args (i + 1)"
      by (simp add: echo_args_def Cons_nth_drop_Suc [symmetric])
    with Some "1.IH" [OF Some] show ?thesis
      by (subst echo_loop.simps) (simp add: print_out_print_out)
  qed
qed

lemma help_loop_eq:
  "help_loop i w = print_out (concat (map (\<lambda>s. ''  '' @ s @ ''\<newline>'') (drop i builtin_str))) w"
proof (induction i w rule: help_loop.induct)
  case (1 i w)
  show ?case
  proof (cases "i < lsh_num_builtins")
    case True
    then have "drop i builtin_str = builtin_str ! i # drop (i + 1) builtin_str"
      by (simp add: lsh_num_builtins_def Cons_nth_drop_Suc)
    with True "1.IH" [OF True] show ?thesis
      by (subst help_loop.simps) (simp add: print_out_print_out)
  next
    case False
    then show ?thesis
      by (subst help_loop.simps) (simp add: lsh_num_builtins_def print_out_Nil)
  qed
qed

lemma readdir_loop_eq:
  "readdir_loop es w = print_out (concat (map (\<lambda>d. d @ ''\<newline>'') es)) w"
  by (induction es arbitrary: w) (simp_all add: print_out_Nil print_out_print_out)

lemma builtins_inp:
  "inp (snd (lsh_echo os args w)) = inp w"
  "inp (snd (lsh_pwd os args w)) = inp w"
  "inp (snd (lsh_ls os args w)) = inp w"
  "inp (snd (lsh_mkdir os args w)) = inp w"
  "inp (snd (lsh_cd os args w)) = inp w"
  "inp (snd (lsh_help os args w)) = inp w"
  "inp (snd (lsh_exit os args w)) = inp w"
  by (simp_all add: lsh_echo_def lsh_pwd_def lsh_ls_def lsh_mkdir_def lsh_cd_def lsh_help_def
      lsh_exit_def echo_loop_eq help_loop_eq readdir_loop_eq print_out_def
      print_err_def perror_def Let_def split: option.splits sum.splits)

lemma less_num_builtins:
  "i < lsh_num_builtins \<longleftrightarrow> i = 0 \<or> i = 1 \<or> i = 2 \<or> i = 3 \<or> i = 4 \<or> i = 5 \<or> i = 6"
  by (auto simp: lsh_num_builtins_def builtin_str_def)

lemma builtin_func_inp:
  "i < lsh_num_builtins \<Longrightarrow> inp (snd ((builtin_func ! i) os args w)) = inp w"
  by (auto simp: less_num_builtins builtin_func_def builtins_inp)

lemma of_char_pos: "c \<noteq> CHR 0x00 \<Longrightarrow> 0 < (of_char c :: nat)"
proof -
  assume "c \<noteq> CHR 0x00"
  then have "(of_char c :: nat) \<noteq> of_char (CHR 0x00)"
    by (simp only: of_char_eq_iff) simp
  then show ?thesis by simp
qed

lemma strcmp_eq: "strcmp a b = 0 \<longleftrightarrow> c_str a = c_str b"
  by (induction a b rule: strcmp.induct) (auto simp: c_str_def dest: of_char_pos)

lemma builtin_loop_find:
  "builtin_loop (os :: 'k os) args a0 i w =
     (case find (\<lambda>(n, f). c_str a0 = c_str n) (drop i (zip builtin_str builtin_func)) of
        None \<Rightarrow> None
      | Some (n, f) \<Rightarrow> Some (f os args w))"
proof (induction os args a0 i w rule: builtin_loop.induct)
  case (1 os args a0 i w)
  show ?case
  proof (cases "i < lsh_num_builtins")
    case True
    let ?bf = "builtin_func :: ('k os \<Rightarrow> argv \<Rightarrow> 'k world \<Rightarrow> int \<times> 'k world) list"
    have len: "length ?bf = length builtin_str"
      by (simp add: builtin_str_def builtin_func_def)
    from True have d: "drop i (zip builtin_str ?bf)
        = (builtin_str ! i, ?bf ! i) # drop (i + 1) (zip builtin_str ?bf)"
      unfolding lsh_num_builtins_def
      by (simp add: len Cons_nth_drop_Suc [symmetric])
    show ?thesis
    proof (cases "strcmp a0 (builtin_str ! i) = 0")
      case eq: True
      with True d show ?thesis
        by (subst builtin_loop.simps) (simp add: strcmp_eq)
    next
      case ne: False
      with True d "1.IH" [OF True ne] show ?thesis
        by (subst builtin_loop.simps) (simp add: strcmp_eq)
    qed
  next
    case False
    then show ?thesis
      by (subst builtin_loop.simps)
         (simp add: lsh_num_builtins_def builtin_str_def builtin_func_def)
  qed
qed

lemma builtin_loop_0:
  "builtin_loop os args a0 0 w =
     (if c_str a0 = ''echo'' then Some (lsh_echo os args w)
      else if c_str a0 = ''pwd'' then Some (lsh_pwd os args w)
      else if c_str a0 = ''ls'' then Some (lsh_ls os args w)
      else if c_str a0 = ''mkdir'' then Some (lsh_mkdir os args w)
      else if c_str a0 = ''cd'' then Some (lsh_cd os args w)
      else if c_str a0 = ''help'' then Some (lsh_help os args w)
      else if c_str a0 = ''exit'' then Some (lsh_exit os args w)
      else None)"
  by (simp add: builtin_loop_find builtin_str_def builtin_func_def c_str_def)

lemma read_loop_inp:
  "read_loop os buffer bufsize w = Ret line w' \<Longrightarrow> length (inp w') < length (inp w)"
proof (induction os buffer bufsize w rule: read_loop.induct)
  case (1 os buffer bufsize w)
  from "1.prems" "1.IH" show ?case
    apply (subst (asm) read_loop.simps)
    apply (auto simp: getchar_def Let_def split: list.splits if_splits)
     apply (meson less_SucI)+
    done
qed

lemma lsh_read_line_inp:
  "lsh_read_line os w = Ret line w' \<Longrightarrow> length (inp w') < length (inp w)"
  by (auto simp: lsh_read_line_def split: if_splits dest: read_loop_inp)

lemma split_loop_world:
  "split_loop os r tokens bufsize w = Ret args w' \<Longrightarrow> w' = w"
  by (induction os r tokens bufsize w rule: split_loop.induct)
     (auto simp: Let_def split: if_splits)

lemma lsh_split_line_world:
  "lsh_split_line os line w = Ret args w' \<Longrightarrow> w' = w"
  by (auto simp: lsh_split_line_def split: if_splits dest: split_loop_world)

lemma lsh_launch_inp:
  "lsh_launch os args w = Ret r w' \<Longrightarrow> length (inp w') \<le> length (inp w)"
  by (auto simp: lsh_launch_def lsh_launch_child_def perror_def print_err_def
      split: option.splits sum.splits prod.splits)

lemma lsh_execute_inp:
  "lsh_execute os args w = Ret r w' \<Longrightarrow> length (inp w') \<le> length (inp w)"
proof -
  assume a: "lsh_execute os args w = Ret r w'"
  show ?thesis
  proof (cases "cell args 0")
    case None
    with a show ?thesis by (simp add: lsh_execute_def)
  next
    case (Some a0)
    show ?thesis
    proof (cases "builtin_loop os args a0 0 w")
      case None
      with a Some have "lsh_launch os args w = Ret r w'" by (simp add: lsh_execute_def)
      then show ?thesis by (rule lsh_launch_inp)
    next
      case b: (Some p)
      with a Some have p: "p = (r, w')" by (simp add: lsh_execute_def split: prod.splits)
      from b have "inp (snd p) = inp w"
        by (auto simp: builtin_loop_0 builtins_inp split: if_splits)
      with p show ?thesis by simp
    qed
  qed
qed

text \<open>The \<^verbatim>\<open>do ... while (status)\<close> of \<^verbatim>\<open>lsh_loop\<close>.\<close>

function lsh_loop :: "'k os \<Rightarrow> 'k world \<Rightarrow> (unit, 'k) outcome" where
  "lsh_loop os w =
     (case lsh_read_line os (print_out ''> '' w) of
        Exit c w1 \<Rightarrow> Exit c w1
      | Blocked \<Rightarrow> Blocked
      | Ret line w1 \<Rightarrow>
          (case lsh_split_line os line w1 of
             Exit c w2 \<Rightarrow> Exit c w2
           | Blocked \<Rightarrow> Blocked
           | Ret args w2 \<Rightarrow>
               (case lsh_execute os args w2 of
                  Exit c w3 \<Rightarrow> Exit c w3
                | Blocked \<Rightarrow> Blocked
                | Ret status w3 \<Rightarrow>
                    if status \<noteq> 0 then lsh_loop os w3 else Ret () w3)))"
  by pat_completeness auto
termination
proof (relation "measure (\<lambda>(os, w). length (inp w))")
  show "wf (measure (\<lambda>(os :: 'k os, w :: 'k world). length (inp w)))" by simp
next
  fix os :: "'k os" and w line w1 args w2 status w3
  assume r: "lsh_read_line os (print_out ''> '' w) = Ret line w1"
    and s: "lsh_split_line os line w1 = Ret args w2"
    and e: "lsh_execute os args w2 = Ret status w3"
  from lsh_read_line_inp [OF r] have "length (inp w1) < length (inp w)"
    by (simp add: print_out_def)
  moreover from lsh_split_line_world [OF s] have "w2 = w1" .
  moreover note lsh_execute_inp [OF e]
  ultimately show "((os, w3), (os, w)) \<in> measure (\<lambda>(os, w). length (inp w))"
    by simp
qed

declare lsh_loop.simps [simp del]

text \<open>\<^verbatim>\<open>main\<close> runs the loop; returning \<^verbatim>\<open>EXIT_SUCCESS\<close> from it ends the process.\<close>

definition main :: "'k os \<Rightarrow> 'k world \<Rightarrow> (unit, 'k) outcome" where
  "main os w =
     (case lsh_loop os w of
        Ret u w' \<Rightarrow> Exit EXIT_SUCCESS w'
      | Exit c w' \<Rightarrow> Exit c w'
      | Blocked \<Rightarrow> Blocked)"

section \<open>Reference notions\<close>

text \<open>
  What the description of the shell says about tokens, written down independently of
  \<^verbatim>\<open>strtok\<close>: the whitespace characters are space, tab, carriage return, newline and bell;
  \<open>pieces\<close> cuts a line at every whitespace character, and the maximal runs of
  other characters are the pieces that are not empty.
\<close>

definition whitespace :: "char set" where
  "whitespace = {CHR '' '', CHR 0x09, CHR 0x0D, CHR ''\<newline>'', CHR 0x07}"

fun pieces :: "string \<Rightarrow> string list" where
  "pieces [] = [[]]"
| "pieces (c # cs) =
     (if c \<in> whitespace then [] # pieces cs
      else (case pieces cs of [] \<Rightarrow> [[c]] | p # ps \<Rightarrow> (c # p) # ps))"

definition maximal_runs :: "string \<Rightarrow> string list" where
  "maximal_runs s = filter (\<lambda>p. p \<noteq> []) (pieces s)"

text \<open>
  Joining tokens with single spaces, and the normal form behind whitespace-insensitive
  equality: every maximal run of whitespace becomes one space, then leading and
  trailing whitespace goes.
\<close>

fun join :: "string list \<Rightarrow> string" where
  "join [] = []"
| "join [t] = t"
| "join (t # u # ts) = t @ '' '' @ join (u # ts)"

function collapse :: "string \<Rightarrow> string" where
  "collapse [] = []"
| "collapse (c # cs) =
     (if c \<in> whitespace then CHR '' '' # collapse (dropWhile (\<lambda>d. d \<in> whitespace) cs)
      else c # collapse cs)"
  by pat_completeness auto
termination
  by (relation "measure length") (auto simp: le_imp_less_Suc length_dropWhile_le)

definition trim :: "string \<Rightarrow> string" where
  "trim s = rev (dropWhile (\<lambda>c. c \<in> whitespace) (rev (dropWhile (\<lambda>c. c \<in> whitespace) s)))"

definition normalise :: "string \<Rightarrow> string" where
  "normalise s = trim (collapse s)"

text \<open>The tokens that repeated \<^verbatim>\<open>strtok\<close> calls hand out, as a list.\<close>

function toks :: "string \<Rightarrow> string list" where
  "toks s = (case strtok s LSH_TOK_DELIM of None \<Rightarrow> [] | Some (t, s') \<Rightarrow> t # toks s')"
  by pat_completeness auto
termination
  by (relation "measure length") (auto dest: strtok_shorter)

declare toks.simps [simp del]

text \<open>
  A small operating system and a world to run the shell on: the working directory is the
  system state, \<^verbatim>\<open>chdir\<close> knows the one directory \<^verbatim>\<open>/tmp\<close>, every \<^verbatim>\<open>execvp\<close> fails, memory
  is never refused. Two child runs: one that is stopped twice and never ends, one that
  is stopped and then exits with code 3.
\<close>

definition sample_os :: "string os" where
  "sample_os =
     \<lparr>strerror = (\<lambda>e. if e = 2 then ''No such file or directory'' else ''Error''),
      os_getcwd = (\<lambda>k n. if length k < n then Inr k else Inl 34),
      os_chdir = (\<lambda>k p. if p = ''/tmp'' then Inr p else Inl 2),
      os_mkdir = (\<lambda>k p m. Inl 17),
      os_opendir = (\<lambda>k p. Inr [''.'', ''..'']),
      os_fork = (\<lambda>w. None),
      os_execvp = (\<lambda>args w. Inl 2),
      alloc_ok = (\<lambda>n. True),
      sizeof_ptr = 8,
      stack_garbage = []\<rparr>"

definition sample_world :: "string \<Rightarrow> string world" where
  "sample_world i = \<lparr>inp = i, out = [], err = [], kern = ''/home''\<rparr>"

definition stopped_run :: "string world \<Rightarrow> string child_run" where
  "stopped_run w = \<lparr>consumed = 0, child_out = ''hi'', child_err = [], child_kern = kern w,
     reports = [WStopped 19, WStopped 20]\<rparr>"

definition ended_run :: "string world \<Rightarrow> string child_run" where
  "ended_run w = \<lparr>consumed = 0, child_out = ''hi'', child_err = [], child_kern = kern w,
     reports = [WStopped 19, WExited 3]\<rparr>"

text \<open>
  A second operating system, whose state is the working directory together with the
  directories made so far and their modes: \<^verbatim>\<open>mkdir\<close> adds a directory unless it exists,
  \<^verbatim>\<open>chdir\<close> enters a directory that has been made.
\<close>

definition dirs_os :: "(string \<times> (string \<times> nat) list) os" where
  "dirs_os =
     \<lparr>strerror = (\<lambda>e. if e = 17 then ''File exists'' else ''No such file or directory''),
      os_getcwd = (\<lambda>k n. if length (fst k) < n then Inr (fst k) else Inl 34),
      os_chdir = (\<lambda>k p. if p \<in> set (map fst (snd k)) then Inr (p, snd k) else Inl 2),
      os_mkdir = (\<lambda>k p m. if p \<in> set (map fst (snd k)) then Inl 17
                          else Inr (fst k, snd k @ [(p, m)])),
      os_opendir = (\<lambda>k p. Inr (map fst (snd k))),
      os_fork = (\<lambda>w. None),
      os_execvp = (\<lambda>args w. Inl 2),
      alloc_ok = (\<lambda>n. True),
      sizeof_ptr = 8,
      stack_garbage = []\<rparr>"

text \<open>
  Two notions for the proofs: a list of tokens is clean when each is non-empty and free
  of whitespace; \<open>trail l\<close> is the space that collapsing leaves for trailing whitespace.
\<close>

definition clean :: "string list \<Rightarrow> bool" where
  "clean ts = (\<forall>t \<in> set ts. t \<noteq> [] \<and> set t \<inter> whitespace = {})"

definition trail :: "string \<Rightarrow> string" where
  "trail l = (if l \<noteq> [] \<and> last l \<in> whitespace then '' '' else [])"

section \<open>Properties of the tokenizer\<close>

lemma delim_whitespace: "set LSH_TOK_DELIM = whitespace"
  by (auto simp: LSH_TOK_DELIM_def whitespace_def)

lemma pieces_unfold:
  "pieces l = takeWhile (\<lambda>c. c \<notin> whitespace) l
     # (case dropWhile (\<lambda>c. c \<notin> whitespace) l of [] \<Rightarrow> [] | d # r \<Rightarrow> pieces r)"
  by (induction l) (auto split: list.splits)

lemma runs_dropWhile: "maximal_runs (dropWhile (\<lambda>c. c \<in> whitespace) l) = maximal_runs l"
  by (induction l) (auto simp: maximal_runs_def)

lemma runs_Nil: "maximal_runs [] = []"
  by (simp add: maximal_runs_def)

lemma runs_rest:
  "filter (\<lambda>p. p \<noteq> []) (case d of [] \<Rightarrow> [] | x # r \<Rightarrow> pieces r) = maximal_runs (drop 1 d)"
  by (cases d) (simp_all add: maximal_runs_def)

lemma runs_head:
  assumes "l \<noteq> []" and "hd l \<notin> whitespace"
  shows "maximal_runs l = takeWhile (\<lambda>c. c \<notin> whitespace) l
     # maximal_runs (drop 1 (dropWhile (\<lambda>c. c \<notin> whitespace) l))"
proof -
  from assms have ne: "takeWhile (\<lambda>c. c \<notin> whitespace) l \<noteq> []"
    by (cases l) auto
  have "maximal_runs l = filter (\<lambda>p. p \<noteq> []) (takeWhile (\<lambda>c. c \<notin> whitespace) l
     # (case dropWhile (\<lambda>c. c \<notin> whitespace) l of [] \<Rightarrow> [] | d # r \<Rightarrow> pieces r))"
    unfolding maximal_runs_def by (subst pieces_unfold) (rule refl)
  also have "\<dots> = takeWhile (\<lambda>c. c \<notin> whitespace) l
     # filter (\<lambda>p. p \<noteq> [])
         (case dropWhile (\<lambda>c. c \<notin> whitespace) l of [] \<Rightarrow> [] | d # r \<Rightarrow> pieces r)"
    using ne by simp
  finally show ?thesis by (simp only: runs_rest)
qed

lemma c_str_id: "CHR 0x00 \<notin> set l \<Longrightarrow> c_str l = l"
  by (auto simp: c_str_def)

lemma c_str_no_NUL: "CHR 0x00 \<notin> set (c_str l)"
  by (auto simp: c_str_def dest: set_takeWhileD)

lemma toks_runs: "toks s = maximal_runs (c_str s)"
proof (induction s rule: toks.induct)
  case (1 s)
  define s1 where "s1 = dropWhile (\<lambda>c. c \<in> whitespace) (c_str s)"
  have r: "maximal_runs (c_str s) = maximal_runs s1"
    unfolding s1_def by (simp add: runs_dropWhile)
  show ?case
  proof (cases "s1 = []")
    case True
    then have "strtok s LSH_TOK_DELIM = None"
      by (simp add: strtok_def delim_whitespace s1_def)
    with r True show ?thesis
      by (subst toks.simps) (simp add: runs_Nil)
  next
    case False
    define t where "t = takeWhile (\<lambda>c. c \<notin> whitespace) s1"
    define s' where "s' = drop 1 (dropWhile (\<lambda>c. c \<notin> whitespace) s1)"
    from False have st: "strtok s LSH_TOK_DELIM = Some (t, s')"
      by (simp add: strtok_def delim_whitespace s1_def t_def s'_def Let_def)
    from False have "hd s1 \<notin> whitespace"
      unfolding s1_def by (rule hd_dropWhile)
    with False have rr: "maximal_runs s1 = t # maximal_runs s'"
      unfolding t_def s'_def by (rule runs_head)
    have "set s' \<subseteq> set (c_str s)"
      unfolding s'_def s1_def
      by (auto dest!: in_set_dropD set_dropWhileD)
    with c_str_no_NUL [of s] have "CHR 0x00 \<notin> set s'" by blast
    then have cs: "c_str s' = s'" by (rule c_str_id)
    from "1.IH" [OF st refl] cs have "toks s' = maximal_runs s'" by simp
    with st rr r show ?thesis
      by (subst toks.simps) simp
  qed
qed

lemma toks_unfold:
  "(case strtok s LSH_TOK_DELIM of None \<Rightarrow> [] | Some (t, s') \<Rightarrow> t # toks s') = toks s"
  by (subst (2) toks.simps) (rule refl)

lemma split_loop_toks:
  "\<forall>n. alloc_ok os n \<Longrightarrow>
   split_loop os r tokens bufsize w =
     Ret (tokens @ map Some (case r of None \<Rightarrow> [] | Some (t, s) \<Rightarrow> t # toks s) @ [None]) w"
proof (induction os r tokens bufsize w rule: split_loop.induct)
  case (1 os tokens bufsize w)
  show ?case by simp
next
  case (2 os token saved tokens bufsize w)
  show ?case
  proof (cases "bufsize \<le> length (tokens @ [Some token])")
    case True
    with "2.prems" "2.IH"(1) [OF refl True] show ?thesis
      by (simp add: toks_unfold)
  next
    case False
    with "2.prems" "2.IH"(2) [OF refl False] show ?thesis
      by (simp add: toks_unfold)
  qed
qed

lemma lsh_split_line_runs:
  "\<forall>n. alloc_ok os n \<Longrightarrow>
   lsh_split_line os line w = Ret (map Some (maximal_runs (c_str line)) @ [None]) w"
  by (simp add: lsh_split_line_def split_loop_toks toks_unfold toks_runs)

lemma pieces_clean: "p \<in> set (pieces l) \<Longrightarrow> set p \<inter> whitespace = {}"
  by (induction l arbitrary: p) (fastforce split: if_splits list.splits)+

lemma runs_clean: "t \<in> set (maximal_runs l) \<Longrightarrow> t \<noteq> [] \<and> set t \<inter> whitespace = {}"
  by (auto simp: maximal_runs_def dest: pieces_clean)

lemma runs_blank: "set l \<subseteq> whitespace \<Longrightarrow> maximal_runs l = []"
  by (induction l) (auto simp: maximal_runs_def)

lemma concat_pieces: "concat (pieces l) = filter (\<lambda>c. c \<notin> whitespace) l"
  by (induction l) (auto split: list.splits)

lemma concat_runs: "concat (maximal_runs l) = filter (\<lambda>c. c \<notin> whitespace) l"
proof -
  have "concat (filter (\<lambda>p. p \<noteq> []) ps) = concat ps" for ps :: "string list"
    by (induction ps) auto
  then show ?thesis by (simp add: maximal_runs_def concat_pieces)
qed

section \<open>Joining and normalising\<close>

lemma collapse_clean: "set t \<inter> whitespace = {} \<Longrightarrow> collapse (t @ r) = t @ collapse r"
  by (induction t) auto

lemma runs_clean_list: "clean (maximal_runs l)"
  unfolding clean_def using runs_clean by blast

lemma runs_single: "t \<noteq> [] \<Longrightarrow> set t \<inter> whitespace = {} \<Longrightarrow> maximal_runs t = [t]"
proof -
  assume ne: "t \<noteq> []" and cl: "set t \<inter> whitespace = {}"
  then have h: "hd t \<notin> whitespace" by (cases t) auto
  from cl have "takeWhile (\<lambda>c. c \<notin> whitespace) t = t" "dropWhile (\<lambda>c. c \<notin> whitespace) t = []"
    by auto
  with runs_head [OF ne h] show ?thesis by (simp add: runs_Nil)
qed

lemma runs_token_space:
  assumes ne: "t \<noteq> []" and cl: "set t \<inter> whitespace = {}" and d: "d \<in> whitespace"
  shows "maximal_runs (t @ d # r) = t # maximal_runs r"
proof -
  from ne cl have h: "hd (t @ d # r) \<notin> whitespace" by (cases t) auto
  from cl d have tw: "takeWhile (\<lambda>c. c \<notin> whitespace) (t @ d # r) = t"
    by (subst takeWhile_append2) auto
  from cl d have dw: "dropWhile (\<lambda>c. c \<notin> whitespace) (t @ d # r) = d # r"
    by (subst dropWhile_append2) auto
  from runs_head [OF _ h] tw dw show ?thesis by simp
qed

lemma space_whitespace: "CHR '' '' \<in> whitespace"
  by (simp add: whitespace_def)

lemma runs_join: "clean ts \<Longrightarrow> maximal_runs (join ts) = ts"
proof (induction ts rule: join.induct)
  case 1
  show ?case by (simp add: runs_Nil)
next
  case (2 t)
  then show ?case by (simp add: clean_def runs_single)
next
  case (3 t u ts)
  from "3.prems" have t: "t \<noteq> []" "set t \<inter> whitespace = {}" and r: "clean (u # ts)"
    by (auto simp: clean_def)
  from runs_token_space [OF t space_whitespace, of "join (u # ts)"] "3.IH" [OF r]
  show ?case by simp
qed

lemma join_Cons: "join (t # ts) = (if ts = [] then t else t @ '' '' @ join ts)"
  by (cases ts) simp_all

lemma collapse_headed:
  "l = [] \<or> hd l \<notin> whitespace \<Longrightarrow> collapse l = join (maximal_runs l) @ trail l"
proof (induction l rule: length_induct)
  case (1 l)
  show ?case
  proof (cases "l = []")
    case True
    then show ?thesis by (simp add: runs_Nil trail_def)
  next
    case False
    with "1.prems" have h: "hd l \<notin> whitespace" by simp
    define t where "t = takeWhile (\<lambda>c. c \<notin> whitespace) l"
    define r where "r = dropWhile (\<lambda>c. c \<notin> whitespace) l"
    have l: "l = t @ r" by (simp add: t_def r_def)
    from False h have tne: "t \<noteq> []" unfolding t_def by (cases l) auto
    have tcl: "set t \<inter> whitespace = {}"
      unfolding t_def by (auto dest: set_takeWhileD)
    have ru: "maximal_runs l = t # maximal_runs (drop 1 r)"
      unfolding t_def r_def using False h by (rule runs_head)
    have co: "collapse l = t @ collapse r"
      by (subst l) (rule collapse_clean [OF tcl])
    show ?thesis
    proof (cases r)
      case Nil
      from tne have "last t \<in> set t" by simp
      with tcl have "last t \<notin> whitespace" by blast
      with l Nil have "last l \<notin> whitespace" by simp
      with Nil co ru show ?thesis by (simp add: runs_Nil trail_def)
    next
      case (Cons d r')
      have dw: "d \<in> whitespace"
        using hd_dropWhile [of "\<lambda>c. c \<notin> whitespace" l] Cons unfolding r_def by simp
      define m where "m = dropWhile (\<lambda>c. c \<in> whitespace) r'"
      have cr: "collapse r = CHR '' '' # collapse m"
        using Cons dw by (simp add: m_def)
      have rm: "maximal_runs (drop 1 r) = maximal_runs m"
        using Cons by (simp add: m_def runs_dropWhile)
      have len: "length m < length l"
      proof -
        have "length m \<le> length r'" unfolding m_def by (rule length_dropWhile_le)
        with l Cons show ?thesis by simp
      qed
      have mh: "m = [] \<or> hd m \<notin> whitespace"
        using hd_dropWhile [of "\<lambda>c. c \<in> whitespace" r'] unfolding m_def by blast
      from "1.IH" len mh have ih: "collapse m = join (maximal_runs m) @ trail m" by blast
      have r'eq: "r' = takeWhile (\<lambda>c. c \<in> whitespace) r' @ m"
        by (simp add: m_def)
      show ?thesis
      proof (cases "m = []")
        case True
        then have "\<forall>x \<in> set r'. x \<in> whitespace" unfolding m_def by simp
        with dw have "last (d # r') \<in> whitespace"
          using last_in_set [of "d # r'"] by auto
        with l Cons have "trail l = '' ''" by (simp add: trail_def)
        with True co cr ru rm ih show ?thesis by (simp add: runs_Nil trail_def)
      next
        case False
        with mh have "maximal_runs m \<noteq> []" using runs_head [of m] by simp
        then have j: "join (t # maximal_runs m) = t @ '' '' @ join (maximal_runs m)"
          by (simp add: join_Cons)
        have "last l = last m"
          using False l Cons r'eq
          by (metis append_is_Nil_conv last_appendR last_ConsR list.distinct(1))
        with False l tne have "trail l = trail m" by (simp add: trail_def)
        with co cr ru rm ih j show ?thesis by simp
      qed
    qed
  qed
qed

lemma collapse_any:
  "\<exists>pre. set pre \<subseteq> whitespace \<and> collapse l = pre @ join (maximal_runs l) @ trail l"
proof (cases "l = [] \<or> hd l \<notin> whitespace")
  case True
  from collapse_headed [OF True] show ?thesis by (intro exI [of _ "[]"]) simp
next
  case False
  then obtain d r where l: "l = d # r" and d: "d \<in> whitespace" by (cases l) auto
  define m where "m = dropWhile (\<lambda>c. c \<in> whitespace) r"
  have mh: "m = [] \<or> hd m \<notin> whitespace"
    using hd_dropWhile [of "\<lambda>c. c \<in> whitespace" r] unfolding m_def by blast
  have rm: "maximal_runs l = maximal_runs m"
    using runs_dropWhile [of l] l d by (simp add: m_def)
  have co: "collapse l = CHR '' '' # join (maximal_runs m) @ trail m"
    using l d collapse_headed [OF mh] by (simp add: m_def)
  show ?thesis
  proof (cases "m = []")
    case True
    then have "\<forall>x \<in> set r. x \<in> whitespace" unfolding m_def by simp
    with d l have "last l \<in> whitespace"
      using last_in_set [of "d # r"] by auto
    with l have "trail l = '' ''" by (simp add: trail_def)
    with True co rm show ?thesis
      by (intro exI [of _ "[]"]) (simp add: runs_Nil trail_def)
  next
    case False
    have "r = takeWhile (\<lambda>c. c \<in> whitespace) r @ m" by (simp add: m_def)
    with False l have "last l = last m"
      by (metis last_appendR last_ConsR append_is_Nil_conv)
    with False l have "trail l = trail m" by (simp add: trail_def)
    with co rm show ?thesis
      by (intro exI [of _ "'' ''"]) (simp add: space_whitespace)
  qed
qed

lemma join_nonempty: "clean ts \<Longrightarrow> ts \<noteq> [] \<Longrightarrow> join ts \<noteq> []"
  by (induction ts rule: join.induct) (auto simp: clean_def)

lemma hd_join: "clean ts \<Longrightarrow> ts \<noteq> [] \<Longrightarrow> hd (join ts) \<notin> whitespace"
proof -
  assume c: "clean ts" and n: "ts \<noteq> []"
  then obtain t us where ts: "ts = t # us" by (cases ts) auto
  with c have t: "t \<noteq> []" "set t \<inter> whitespace = {}" by (auto simp: clean_def)
  then have "hd t \<in> set t" by simp
  with t have "hd t \<notin> whitespace" by blast
  with ts t show ?thesis by (simp add: join_Cons)
qed

lemma last_join: "clean ts \<Longrightarrow> ts \<noteq> [] \<Longrightarrow> last (join ts) \<notin> whitespace"
proof (induction ts rule: join.induct)
  case 1
  then show ?case by simp
next
  case (2 t)
  then have t: "t \<noteq> []" "set t \<inter> whitespace = {}" by (auto simp: clean_def)
  then have "last t \<in> set t" by simp
  with t have "last t \<notin> whitespace" by blast
  then show ?case by simp
next
  case (3 t u ts)
  from "3.prems" have c: "clean (u # ts)" by (simp add: clean_def)
  from join_nonempty [OF c] have "join (u # ts) \<noteq> []" by simp
  with "3.IH" [OF c] show ?case by simp
qed

lemma trim_padded:
  assumes pre: "set pre \<subseteq> whitespace" and post: "set post \<subseteq> whitespace"
    and x: "x = [] \<or> (hd x \<notin> whitespace \<and> last x \<notin> whitespace)"
  shows "trim (pre @ x @ post) = x"
proof (cases "x = []")
  case True
  from pre post have "\<forall>c \<in> set (pre @ post). c \<in> whitespace" by auto
  then have dn: "dropWhile (\<lambda>c. c \<in> whitespace) (pre @ post) = []"
    by (simp only: dropWhile_eq_Nil_conv)
  show ?thesis unfolding trim_def True append_Nil dn by simp
next
  case False
  with x have h: "hd x \<notin> whitespace" and la: "last x \<notin> whitespace" by auto
  from False obtain a y where xa: "x = a # y" by (cases x) auto
  from False obtain z b where xb: "x = z @ [b]" by (cases x rule: rev_cases) auto
  from pre have "dropWhile (\<lambda>c. c \<in> whitespace) (pre @ x @ post) =
      dropWhile (\<lambda>c. c \<in> whitespace) (x @ post)"
    by (intro dropWhile_append2) auto
  also have "\<dots> = x @ post" using h xa by simp
  finally have 1: "dropWhile (\<lambda>c. c \<in> whitespace) (pre @ x @ post) = x @ post" .
  from post have "dropWhile (\<lambda>c. c \<in> whitespace) (rev post @ rev x) =
      dropWhile (\<lambda>c. c \<in> whitespace) (rev x)"
    by (intro dropWhile_append2) auto
  also have "\<dots> = rev x" using la xb by simp
  finally show ?thesis by (simp add: trim_def 1)
qed

lemma normalise_runs: "normalise l = join (maximal_runs l)"
proof -
  from collapse_any [of l] obtain pre where pre: "set pre \<subseteq> whitespace"
    and co: "collapse l = pre @ join (maximal_runs l) @ trail l" by blast
  have post: "set (trail l) \<subseteq> whitespace"
    using space_whitespace by (auto simp: trail_def)
  have "join (maximal_runs l) = [] \<or>
      (hd (join (maximal_runs l)) \<notin> whitespace \<and> last (join (maximal_runs l)) \<notin> whitespace)"
  proof (cases "maximal_runs l = []")
    case True
    then show ?thesis by simp
  next
    case False
    with hd_join [OF runs_clean_list] last_join [OF runs_clean_list] show ?thesis by blast
  qed
  with pre post co show ?thesis by (simp add: normalise_def trim_padded)
qed

lemma set_join: "set (join ts) \<subseteq> \<Union> (set ` set ts) \<union> {CHR '' ''}"
  by (induction ts rule: join.induct) auto

lemma set_runs: "t \<in> set (maximal_runs l) \<Longrightarrow> set t \<subseteq> set l"
proof -
  assume "t \<in> set (maximal_runs l)"
  then have "set t \<subseteq> set (concat (maximal_runs l))" by auto
  also have "\<dots> \<subseteq> set l" by (simp add: concat_runs)
  finally show ?thesis .
qed

lemma c_str_join_runs: "c_str (join (maximal_runs (c_str line))) = join (maximal_runs (c_str line))"
proof (rule c_str_id)
  show "CHR 0x00 \<notin> set (join (maximal_runs (c_str line)))"
  proof
    assume "CHR 0x00 \<in> set (join (maximal_runs (c_str line)))"
    with set_join [of "maximal_runs (c_str line)"]
    obtain t where "t \<in> set (maximal_runs (c_str line))" "CHR 0x00 \<in> set t" by auto
    with set_runs [of t "c_str line"] c_str_no_NUL [of line] show False by blast
  qed
qed

lemma runs_cd_sample: "maximal_runs (c_str ''  cd   /tmp '') = [''cd'', ''/tmp'']"
  by (simp add: maximal_runs_def c_str_def whitespace_def)

section \<open>Properties of the builtins, the launcher and the reader\<close>

lemma echo_args_simps:
  "echo_args [] i = []"
  "echo_args (None # rest) 0 = []"
  "echo_args (Some a # rest) 0 = a # echo_args rest 0"
  "echo_args (c # rest) (Suc i) = echo_args rest i"
  by (simp_all add: echo_args_def)

lemma lsh_echo_eq:
  "lsh_echo os args w =
     (1, print_out (concat (map (\<lambda>a. a @ '' '') (echo_args args 1)) @ ''\<newline>'') w)"
  by (simp add: lsh_echo_def echo_loop_eq print_out_print_out)

lemma lsh_launch_returns_1: "lsh_launch os args w = Ret r w' \<Longrightarrow> r = 1"
  by (auto simp: lsh_launch_def split: option.splits prod.splits)

lemma wait_loop_stopped:
  "\<forall>s \<in> set rep. \<not> WIFEXITED s \<and> \<not> WIFSIGNALED s \<Longrightarrow> wait_loop rep = None"
  by (induction rep) auto

lemma wait_loop_ended:
  "\<forall>s \<in> set stops. \<not> WIFEXITED s \<and> \<not> WIFSIGNALED s \<Longrightarrow> WIFEXITED s \<or> WIFSIGNALED s
   \<Longrightarrow> wait_loop (stops @ s # later) = Some s"
  by (induction stops) auto

lemma read_loop_eof: "inp w = [] \<Longrightarrow> read_loop os buffer bufsize w = Exit EXIT_SUCCESS w"
  by (subst read_loop.simps) (simp add: getchar_def)

lemma read_line_exit:
  "lsh_read_line sample_os (print_out ''> '' (sample_world ''exit 3\<newline>ls\<newline>''))
     = Ret ''exit 3'' \<lparr>inp = ''ls\<newline>'', out = ''> '', err = [], kern = ''/home''\<rparr>"
  by (simp add: lsh_read_line_def read_loop.simps getchar_def sample_os_def sample_world_def
      print_out_def LSH_RL_BUFSIZE_def)

lemma split_line_exit:
  "lsh_split_line sample_os ''exit 3'' w = Ret [Some ''exit'', Some ''3'', None] w"
  by (simp add: lsh_split_line_def strtok_def c_str_def sample_os_def LSH_TOK_DELIM_def
      LSH_TOK_BUFSIZE_def Let_def)

lemma maximal_runs_sample: "maximal_runs (c_str ('' ls  -l'' @ [CHR 0x09] @ ''/tmp '')) = [''ls'', ''-l'', ''/tmp'']"
  by (simp add: maximal_runs_def c_str_def whitespace_def)

lemma blank_sample: "set (c_str ('' '' @ [CHR 0x07, CHR 0x0D])) \<subseteq> whitespace"
  by (simp add: c_str_def whitespace_def)

section \<open>The claims\<close>

text \<open>
  Claim C1. For every argument vector: when its first cell is the end marker,
  \<^verbatim>\<open>lsh_execute\<close> does nothing and returns 1 (continue); when its first token equals one
  of the seven builtin names, character for character, \<^verbatim>\<open>lsh_execute\<close> calls that
  builtin on the whole vector and returns what it returns; otherwise it hands the vector
  to \<^verbatim>\<open>lsh_launch\<close> and returns what that returns. (\<open>c_str a0\<close> is \<open>a0\<close> for every token
  of the tokenizer.)
\<close>

theorem lsh_execute_dispatch:
  "lsh_execute os args w =
     (case cell args 0 of
        None \<Rightarrow> Ret 1 w
      | Some a0 \<Rightarrow>
          if c_str a0 = ''echo'' then case_prod Ret (lsh_echo os args w)
          else if c_str a0 = ''pwd'' then case_prod Ret (lsh_pwd os args w)
          else if c_str a0 = ''ls'' then case_prod Ret (lsh_ls os args w)
          else if c_str a0 = ''mkdir'' then case_prod Ret (lsh_mkdir os args w)
          else if c_str a0 = ''cd'' then case_prod Ret (lsh_cd os args w)
          else if c_str a0 = ''help'' then case_prod Ret (lsh_help os args w)
          else if c_str a0 = ''exit'' then case_prod Ret (lsh_exit os args w)
          else lsh_launch os args w)"
  by (simp add: lsh_execute_def builtin_loop_0 split: option.splits)

theorem lsh_execute_dispatch_witness:
  "lsh_execute sample_os [None] (sample_world []) = Ret 1 (sample_world [])
   \<and> lsh_execute sample_os [Some ''cd'', Some ''/tmp'', None] (sample_world [])
     = Ret 1 \<lparr>inp = [], out = [], err = [], kern = ''/tmp''\<rparr>
   \<and> lsh_execute sample_os [Some ''exit'', None] (sample_world [])
     = Ret 0 (sample_world [])
   \<and> lsh_execute sample_os [Some ''CD'', Some ''/tmp'', None] (sample_world [])
     = Ret 1 \<lparr>inp = [], out = [], err = ''lsh: No such file or directory\<newline>'',
             kern = ''/home''\<rparr>"
  using lsh_execute_dispatch [of sample_os "[None]" "sample_world []"]
    lsh_execute_dispatch [of sample_os "[Some ''cd'', Some ''/tmp'', None]" "sample_world []"]
    lsh_execute_dispatch [of sample_os "[Some ''exit'', None]" "sample_world []"]
    lsh_execute_dispatch [of sample_os "[Some ''CD'', Some ''/tmp'', None]" "sample_world []"]
  by (simp add: cell_def c_str_def lsh_cd_def lsh_exit_def lsh_launch_def lsh_launch_child_def
      perror_def print_err_def sample_os_def sample_world_def)

text \<open>
  Claim C2. Each of \<^verbatim>\<open>echo\<close>, \<^verbatim>\<open>pwd\<close>, \<^verbatim>\<open>ls\<close>, \<^verbatim>\<open>mkdir\<close>, \<^verbatim>\<open>cd\<close>, \<^verbatim>\<open>help\<close> returns 1
  (continue) on every argument vector; \<^verbatim>\<open>exit\<close> returns 0 (terminate) on every argument
  vector and changes nothing. Whenever the line just read splits into a vector whose
  command is \<^verbatim>\<open>exit\<close>, whatever its arguments and whatever the state, the loop returns in
  that round and \<^verbatim>\<open>main\<close> ends the process with \<^verbatim>\<open>EXIT_SUCCESS\<close>.
\<close>

theorem builtin_signals:
  "fst (lsh_echo os args w) = 1 \<and> fst (lsh_pwd os args w) = 1 \<and> fst (lsh_ls os args w) = 1
   \<and> fst (lsh_mkdir os args w) = 1 \<and> fst (lsh_cd os args w) = 1
   \<and> fst (lsh_help os args w) = 1 \<and> lsh_exit os args w = (0, w)
   \<and> (lsh_read_line os (print_out ''> '' w) = Ret line w1
        \<and> lsh_split_line os line w1 = Ret args w2
        \<and> cell args 0 = Some a0 \<and> c_str a0 = ''exit'' \<longrightarrow>
      lsh_execute os args w2 = Ret 0 w2 \<and> lsh_loop os w = Ret () w2
      \<and> main os w = Exit EXIT_SUCCESS w2)"
proof -
  have b: "fst (lsh_echo os args w) = 1 \<and> fst (lsh_pwd os args w) = 1
      \<and> fst (lsh_ls os args w) = 1 \<and> fst (lsh_mkdir os args w) = 1
      \<and> fst (lsh_cd os args w) = 1 \<and> fst (lsh_help os args w) = 1
      \<and> lsh_exit os args w = (0, w)"
    by (simp add: lsh_echo_def lsh_pwd_def lsh_ls_def lsh_mkdir_def lsh_cd_def lsh_help_def
        lsh_exit_def Let_def split: option.splits sum.splits)
  have l: "lsh_execute os args w2 = Ret 0 w2 \<and> lsh_loop os w = Ret () w2
      \<and> main os w = Exit EXIT_SUCCESS w2"
    if r: "lsh_read_line os (print_out ''> '' w) = Ret line w1"
      and s: "lsh_split_line os line w1 = Ret args w2"
      and c: "cell args 0 = Some a0" and x: "c_str a0 = ''exit''"
  proof -
    from c x have e: "lsh_execute os args w2 = Ret 0 w2"
      by (simp add: lsh_execute_def builtin_loop_0 lsh_exit_def)
    from r s e have "lsh_loop os w = Ret () w2"
      by (subst lsh_loop.simps) simp
    with e show ?thesis by (simp add: main_def)
  qed
  from b l show ?thesis by blast
qed

theorem builtin_signals_witness:
  "main sample_os (sample_world ''exit 3\<newline>ls\<newline>'')
     = Exit 0 \<lparr>inp = ''ls\<newline>'', out = ''> '', err = [], kern = ''/home''\<rparr>"
  using builtin_signals [of sample_os "[Some ''exit'', Some ''3'', None]"
      "sample_world ''exit 3\<newline>ls\<newline>''" "''exit 3''"
      "\<lparr>inp = ''ls\<newline>'', out = ''> '', err = [], kern = ''/home''\<rparr>"
      "\<lparr>inp = ''ls\<newline>'', out = ''> '', err = [], kern = ''/home''\<rparr>" "''exit''"]
  by (simp add: read_line_exit split_line_exit cell_def c_str_def EXIT_SUCCESS_def)

text \<open>
  Claim C3. When the line reader meets the end of standard input with no character
  stored, the process ends at once with \<^verbatim>\<open>EXIT_SUCCESS\<close>: the read loop does not return
  and prints nothing. At the very first prompt the whole program has then printed the
  prompt and nothing else.
\<close>

theorem eof_on_empty_prompt:
  "inp w = [] \<Longrightarrow>
     read_loop os [] LSH_RL_BUFSIZE w = Exit EXIT_SUCCESS w
     \<and> (alloc_ok os LSH_RL_BUFSIZE \<longrightarrow>
          lsh_read_line os w = Exit EXIT_SUCCESS w
          \<and> lsh_loop os w = Exit EXIT_SUCCESS (w\<lparr>out := out w @ ''> ''\<rparr>)
          \<and> main os w = Exit EXIT_SUCCESS (w\<lparr>out := out w @ ''> ''\<rparr>))"
proof -
  assume e: "inp w = []"
  then have e': "inp (print_out ''> '' w) = []" by (simp add: print_out_def)
  have l: "lsh_loop os w = Exit EXIT_SUCCESS (w\<lparr>out := out w @ ''> ''\<rparr>)"
    if a: "alloc_ok os LSH_RL_BUFSIZE"
  proof -
    from a have "lsh_read_line os (print_out ''> '' w) = Exit EXIT_SUCCESS (print_out ''> '' w)"
      by (simp add: lsh_read_line_def read_loop_eof [OF e'])
    then have "lsh_loop os w = Exit EXIT_SUCCESS (print_out ''> '' w)"
      by (subst lsh_loop.simps) simp
    then show ?thesis by (simp add: print_out_def)
  qed
  from e l show ?thesis
    by (simp add: read_loop_eof lsh_read_line_def main_def)
qed

theorem eof_on_empty_prompt_witness:
  "main sample_os (sample_world []) = Exit 0 \<lparr>inp = [], out = ''> '', err = [], kern = ''/home''\<rparr>"
  using eof_on_empty_prompt [of "sample_world []" sample_os]
  by (simp add: sample_os_def sample_world_def EXIT_SUCCESS_def)

text \<open>
  Claim C4. For every line, when memory is granted, \<^verbatim>\<open>lsh_split_line\<close> returns exactly
  the maximal runs of non-whitespace characters of the line, in order, closed by the
  end marker; whitespace is space, tab, carriage return, newline and bell. Every token
  is non-empty and free of whitespace, the tokens together are the line without its
  whitespace, and a line that is empty or all whitespace gives the end marker alone.
  The line is the C string that the buffer holds, \<open>c_str line\<close>.
\<close>

theorem lsh_split_line_tokens:
  assumes "\<forall>n. alloc_ok os n"
  shows "lsh_split_line os line w = Ret (map Some (maximal_runs (c_str line)) @ [None]) w
     \<and> (\<forall>t \<in> set (maximal_runs (c_str line)). t \<noteq> [] \<and> set t \<inter> whitespace = {})
     \<and> concat (maximal_runs (c_str line)) = filter (\<lambda>c. c \<notin> whitespace) (c_str line)
     \<and> (set (c_str line) \<subseteq> whitespace \<longrightarrow> lsh_split_line os line w = Ret [None] w)"
  using assms
  by (auto simp: lsh_split_line_runs runs_blank concat_runs dest: runs_clean)

theorem lsh_split_line_tokens_witness:
  "lsh_split_line sample_os ('' ls  -l'' @ [CHR 0x09] @ ''/tmp '') (sample_world [])
     = Ret [Some ''ls'', Some ''-l'', Some ''/tmp'', None] (sample_world [])
   \<and> lsh_split_line sample_os ('' '' @ [CHR 0x07, CHR 0x0D]) (sample_world [])
     = Ret [None] (sample_world [])"
proof -
  have a: "\<forall>n. alloc_ok sample_os n" by (simp add: sample_os_def)
  from lsh_split_line_tokens [OF a, of "'' ls  -l'' @ [CHR 0x09] @ ''/tmp ''" "sample_world []"]
  have "lsh_split_line sample_os ('' ls  -l'' @ [CHR 0x09] @ ''/tmp '') (sample_world [])
     = Ret (map Some (maximal_runs (c_str ('' ls  -l'' @ [CHR 0x09] @ ''/tmp ''))) @ [None])
         (sample_world [])"
    by (rule conjunct1)
  moreover
  from lsh_split_line_tokens [OF a, of "'' '' @ [CHR 0x07, CHR 0x0D]" "sample_world []"] blank_sample
  have "lsh_split_line sample_os ('' '' @ [CHR 0x07, CHR 0x0D]) (sample_world [])
     = Ret [None] (sample_world [])"
    by blast
  ultimately show ?thesis by (simp only: maximal_runs_sample) simp
qed

text \<open>
  Claim C5. For every line (the empty one too), when memory is granted: joining the
  tokens of the line with single spaces gives a string with the same normal form as the
  line, where the normal form turns every maximal run of whitespace into one space and
  drops leading and trailing whitespace; and splitting the joined string gives the same
  tokens again. The line is the C string that the buffer holds, \<open>c_str line\<close>.
\<close>

theorem tokenize_join_round_trip:
  assumes "\<forall>n. alloc_ok os n"
  shows "\<exists>ts. lsh_split_line os line w = Ret (map Some ts @ [None]) w
     \<and> normalise (join ts) = normalise (c_str line)
     \<and> lsh_split_line os (join ts) w = Ret (map Some ts @ [None]) w"
proof (intro exI [of _ "maximal_runs (c_str line)"] conjI)
  show "lsh_split_line os line w = Ret (map Some (maximal_runs (c_str line)) @ [None]) w"
    using assms by (rule lsh_split_line_runs)
  show "normalise (join (maximal_runs (c_str line))) = normalise (c_str line)"
    by (simp add: normalise_runs runs_join runs_clean_list)
  show "lsh_split_line os (join (maximal_runs (c_str line))) w
      = Ret (map Some (maximal_runs (c_str line)) @ [None]) w"
    using assms by (simp add: lsh_split_line_runs c_str_join_runs runs_join runs_clean_list)
qed

theorem tokenize_join_round_trip_witness:
  "lsh_split_line sample_os ''  cd   /tmp '' (sample_world [])
     = Ret [Some ''cd'', Some ''/tmp'', None] (sample_world [])
   \<and> normalise ''cd /tmp'' = normalise (c_str ''  cd   /tmp '')
   \<and> lsh_split_line sample_os ''cd /tmp'' (sample_world [])
     = Ret [Some ''cd'', Some ''/tmp'', None] (sample_world [])"
proof -
  have a: "\<forall>n. alloc_ok sample_os n" by (simp add: sample_os_def)
  from tokenize_join_round_trip [OF a, of "''  cd   /tmp ''" "sample_world []"]
  obtain ts where
    1: "lsh_split_line sample_os ''  cd   /tmp '' (sample_world [])
          = Ret (map Some ts @ [None]) (sample_world [])"
    and 2: "normalise (join ts) = normalise (c_str ''  cd   /tmp '')"
    and 3: "lsh_split_line sample_os (join ts) (sample_world [])
          = Ret (map Some ts @ [None]) (sample_world [])"
    by blast
  from 1 lsh_split_line_runs [OF a, of "''  cd   /tmp ''" "sample_world []"]
  have "map Some ts = map Some [''cd'', ''/tmp'']"
    by (simp add: runs_cd_sample)
  then have ts: "ts = [''cd'', ''/tmp'']"
    by (simp only: inj_map_eq_map [OF inj_Some])
  from 1 2 3 show ?thesis unfolding ts by simp
qed

text \<open>
  Claim C6, at the input \<^verbatim>\<open>echo a b c\<close>. \<^verbatim>\<open>lsh_echo\<close> prints each argument followed by a
  space and then a newline: the output is \<^verbatim>\<open>a b c\<close>, a space, a newline, which is not the
  \<^verbatim>\<open>a b c\<close> and newline of the claim.
\<close>

theorem lsh_echo_trailing_space:
  "lsh_echo os [Some ''echo'', Some ''a'', Some ''b'', Some ''c'', None] w
     = (1, w\<lparr>out := out w @ ''a b c \<newline>''\<rparr>)
   \<and> out (snd (lsh_echo os [Some ''echo'', Some ''a'', Some ''b'', Some ''c'', None] w))
     \<noteq> out w @ ''a b c\<newline>''"
  by (simp add: lsh_echo_eq echo_args_simps print_out_def)

text \<open>
  Claim C7. \<^verbatim>\<open>cd\<close> without an argument writes the usage line to standard error; \<^verbatim>\<open>cd\<close>
  with a path that \<^verbatim>\<open>chdir\<close> refuses writes \<^verbatim>\<open>lsh: \<close> and the system's message to standard
  error. In both cases it returns 1 (continue), the system state, and with it the working
  directory, is as before, and nothing goes to standard output.
\<close>

theorem lsh_cd_errors:
  "(cell args 1 = None \<longrightarrow>
      lsh_cd os args w =
        (1, w\<lparr>err := err w @ ''lsh: expected argument to '' @ [CHR 0x22] @ ''cd''
                  @ [CHR 0x22] @ ''\<newline>''\<rparr>))
   \<and> (cell args 1 = Some path \<and> os_chdir os (kern w) path = Inl e \<longrightarrow>
      lsh_cd os args w = (1, w\<lparr>err := err w @ ''lsh: '' @ strerror os e @ ''\<newline>''\<rparr>))
   \<and> ((cell args 1 = None \<or> (cell args 1 = Some path \<and> os_chdir os (kern w) path = Inl e)) \<longrightarrow>
      fst (lsh_cd os args w) = 1 \<and> kern (snd (lsh_cd os args w)) = kern w
      \<and> out (snd (lsh_cd os args w)) = out w \<and> err (snd (lsh_cd os args w)) \<noteq> err w)"
  by (auto simp: lsh_cd_def perror_def print_err_def)

theorem lsh_cd_errors_witness:
  "lsh_cd sample_os [Some ''cd'', None] (sample_world [])
     = (1, \<lparr>inp = [], out = [], err = ''lsh: expected argument to '' @ [CHR 0x22] @ ''cd''
                  @ [CHR 0x22] @ ''\<newline>'', kern = ''/home''\<rparr>)
   \<and> lsh_cd sample_os [Some ''cd'', Some ''/nonexistent-path'', None] (sample_world [])
     = (1, \<lparr>inp = [], out = [], err = ''lsh: No such file or directory\<newline>'',
            kern = ''/home''\<rparr>)"
  using lsh_cd_errors [of "[Some ''cd'', None]" sample_os "sample_world []"]
    lsh_cd_errors [of "[Some ''cd'', Some ''/nonexistent-path'', None]" sample_os
      "sample_world []" "''/nonexistent-path''" 2]
  by (simp add: cell_def sample_os_def sample_world_def)

text \<open>
  Claim C8, when \<^verbatim>\<open>getcwd\<close> fails. \<^verbatim>\<open>lsh_pwd\<close> prints its label and whatever its
  uninitialised array holds to standard output, returns 1, and writes nothing to
  standard error.
\<close>

theorem lsh_pwd_silent_failure:
  "os_getcwd os (kern w) 1024 = Inl e \<Longrightarrow>
     lsh_pwd os args w
       = (1, w\<lparr>out := out w @ ''Current working dir: '' @ stack_garbage os @ ''\<newline>''\<rparr>)
     \<and> err (snd (lsh_pwd os args w)) = err w"
  by (simp add: lsh_pwd_def print_out_def)

theorem lsh_pwd_silent_failure_witness:
  "lsh_pwd sample_os [Some ''pwd'', None]
      \<lparr>inp = [], out = [], err = [], kern = replicate 1024 (CHR ''a'')\<rparr>
     = (1, \<lparr>inp = [], out = ''Current working dir: \<newline>'', err = [],
            kern = replicate 1024 (CHR ''a'')\<rparr>)"
  using lsh_pwd_silent_failure [of sample_os
      "\<lparr>inp = [], out = [], err = [], kern = replicate 1024 (CHR ''a'')\<rparr>" 34
      "[Some ''pwd'', None]"]
  by (simp add: sample_os_def)

text \<open>
  Claim C9. For every argument vector given to \<^verbatim>\<open>lsh_launch\<close>: when \<^verbatim>\<open>fork\<close> fails it
  writes \<^verbatim>\<open>lsh: \<close> and the system's message to standard error and returns 1; when the
  child is only ever reported as stopped, it never returns; when the reports are stops
  followed by an exit or a kill, it returns 1 after the child's run; whenever it returns,
  it returns 1, whatever the child's exit status; and it never ends the shell.
\<close>

theorem lsh_launch_waits:
  "(os_fork os w = Some e \<longrightarrow>
      lsh_launch os args w = Ret 1 (w\<lparr>err := err w @ ''lsh: '' @ strerror os e @ ''\<newline>''\<rparr>))
   \<and> (os_fork os w = None \<and> lsh_launch_child os args w = (w', rep)
        \<and> (\<forall>s \<in> set rep. \<not> WIFEXITED s \<and> \<not> WIFSIGNALED s) \<longrightarrow>
      lsh_launch os args w = Blocked)
   \<and> (os_fork os w = None \<and> lsh_launch_child os args w = (w', stops @ s # later)
        \<and> (\<forall>x \<in> set stops. \<not> WIFEXITED x \<and> \<not> WIFSIGNALED x)
        \<and> (WIFEXITED s \<or> WIFSIGNALED s) \<longrightarrow>
      lsh_launch os args w = Ret 1 w')
   \<and> (\<forall>r v. lsh_launch os args w = Ret r v \<longrightarrow> r = 1)
   \<and> (\<forall>c v. lsh_launch os args w \<noteq> Exit c v)"
proof (intro conjI impI allI)
  assume "os_fork os w = Some e"
  then show "lsh_launch os args w
      = Ret 1 (w\<lparr>err := err w @ ''lsh: '' @ strerror os e @ ''\<newline>''\<rparr>)"
    by (simp add: lsh_launch_def perror_def print_err_def)
next
  assume "os_fork os w = None \<and> lsh_launch_child os args w = (w', rep)
        \<and> (\<forall>s \<in> set rep. \<not> WIFEXITED s \<and> \<not> WIFSIGNALED s)"
  then show "lsh_launch os args w = Blocked"
    by (simp add: lsh_launch_def wait_loop_stopped)
next
  assume "os_fork os w = None \<and> lsh_launch_child os args w = (w', stops @ s # later)
        \<and> (\<forall>x \<in> set stops. \<not> WIFEXITED x \<and> \<not> WIFSIGNALED x)
        \<and> (WIFEXITED s \<or> WIFSIGNALED s)"
  then show "lsh_launch os args w = Ret 1 w'"
    by (simp add: lsh_launch_def wait_loop_ended)
next
  fix r v assume "lsh_launch os args w = Ret r v"
  then show "r = 1" by (rule lsh_launch_returns_1)
next
  fix c v show "lsh_launch os args w \<noteq> Exit c v"
    by (auto simp: lsh_launch_def split: option.splits prod.splits)
qed

theorem lsh_launch_waits_witness:
  "lsh_launch (sample_os\<lparr>os_fork := \<lambda>w. Some 11\<rparr>) [Some ''date'', None] (sample_world [])
     = Ret 1 \<lparr>inp = [], out = [], err = ''lsh: Error\<newline>'', kern = ''/home''\<rparr>
   \<and> lsh_launch (sample_os\<lparr>os_execvp := \<lambda>args. Inr \<circ> stopped_run\<rparr>)
        [Some ''date'', None] (sample_world []) = Blocked
   \<and> lsh_launch (sample_os\<lparr>os_execvp := \<lambda>args. Inr \<circ> ended_run\<rparr>)
        [Some ''date'', None] (sample_world [])
     = Ret 1 \<lparr>inp = [], out = ''hi'', err = [], kern = ''/home''\<rparr>"
proof (intro conjI)
  show "lsh_launch (sample_os\<lparr>os_fork := \<lambda>w. Some 11\<rparr>) [Some ''date'', None]
      (sample_world [])
     = Ret 1 \<lparr>inp = [], out = [], err = ''lsh: Error\<newline>'', kern = ''/home''\<rparr>"
    using lsh_launch_waits [where os = "sample_os\<lparr>os_fork := \<lambda>w. Some 11\<rparr>"
      and w = "sample_world []" and e = 11 and args = "[Some ''date'', None]"
      and w' = "sample_world []" and rep = "[]" and stops = "[]" and s = "WExited 0"
      and later = "[]"]
    by (simp add: sample_os_def sample_world_def)
next
  show "lsh_launch (sample_os\<lparr>os_execvp := \<lambda>args. Inr \<circ> stopped_run\<rparr>)
        [Some ''date'', None] (sample_world []) = Blocked"
    using lsh_launch_waits [where os = "sample_os\<lparr>os_execvp := \<lambda>args. Inr \<circ> stopped_run\<rparr>"
      and w = "sample_world []" and e = 0 and args = "[Some ''date'', None]"
      and w' = "\<lparr>inp = [], out = ''hi'', err = [], kern = ''/home''\<rparr>"
      and rep = "[WStopped 19, WStopped 20]" and stops = "[]" and s = "WExited 0"
      and later = "[]"]
    by (simp add: sample_os_def sample_world_def lsh_launch_child_def stopped_run_def)
next
  show "lsh_launch (sample_os\<lparr>os_execvp := \<lambda>args. Inr \<circ> ended_run\<rparr>)
        [Some ''date'', None] (sample_world [])
     = Ret 1 \<lparr>inp = [], out = ''hi'', err = [], kern = ''/home''\<rparr>"
    using lsh_launch_waits [where os = "sample_os\<lparr>os_execvp := \<lambda>args. Inr \<circ> ended_run\<rparr>"
      and w = "sample_world []" and e = 0 and args = "[Some ''date'', None]"
      and w' = "\<lparr>inp = [], out = ''hi'', err = [], kern = ''/home''\<rparr>"
      and rep = "[]" and stops = "[WStopped 19]" and s = "WExited 3" and later = "[]"]
    by (simp add: sample_os_def sample_world_def lsh_launch_child_def ended_run_def)
qed

text \<open>
  Claim C10. \<^verbatim>\<open>cd\<close> and \<^verbatim>\<open>mkdir\<close> with more than one argument use the first argument
  as the path and nothing else of the vector: \<^verbatim>\<open>cd\<close> is \<^verbatim>\<open>chdir\<close> on the first argument,
  \<^verbatim>\<open>mkdir\<close> is \<^verbatim>\<open>mkdir\<close> on the first argument with mode 0755; on failure the one line
  on standard error is \<^verbatim>\<open>lsh: \<close> and the system's message, on success the system state is
  the one the call gives; both return 1. In effect, in output and in return value this
  is exactly what they do with the first argument alone.
\<close>

theorem extra_arguments_ignored:
  "lsh_cd os (Some c # Some path # extra) w =
     (case os_chdir os (kern w) path of
        Inl e \<Rightarrow> (1, w\<lparr>err := err w @ ''lsh: '' @ strerror os e @ ''\<newline>''\<rparr>)
      | Inr k \<Rightarrow> (1, w\<lparr>kern := k\<rparr>))
   \<and> lsh_mkdir os (Some c # Some path # extra) w =
     (case os_mkdir os (kern w) path 493 of
        Inl e \<Rightarrow> (1, w\<lparr>err := err w @ ''lsh: '' @ strerror os e @ ''\<newline>''\<rparr>)
      | Inr k \<Rightarrow> (1, w\<lparr>kern := k\<rparr>))
   \<and> lsh_cd os (Some c # Some path # extra) w = lsh_cd os [Some c, Some path, None] w
   \<and> lsh_mkdir os (Some c # Some path # extra) w = lsh_mkdir os [Some c, Some path, None] w"
  by (simp add: lsh_cd_def lsh_mkdir_def cell_def perror_def print_err_def split: sum.splits)

theorem extra_arguments_ignored_witness:
  "lsh_cd sample_os [Some ''cd'', Some ''/tmp'', Some ''x'', Some ''y'', None] (sample_world [])
     = (1, \<lparr>inp = [], out = [], err = [], kern = ''/tmp''\<rparr>)
   \<and> lsh_cd dirs_os [Some ''cd'', Some ''d'', Some ''e'', None]
       \<lparr>inp = [], out = [], err = [], kern = (''/home'', [(''e'', 493)])\<rparr>
     = (1, \<lparr>inp = [], out = [], err = ''lsh: No such file or directory\<newline>'',
            kern = (''/home'', [(''e'', 493)])\<rparr>)
   \<and> lsh_mkdir dirs_os [Some ''mkdir'', Some ''d'', Some ''e'', None]
       \<lparr>inp = [], out = [], err = [], kern = (''/home'', [])\<rparr>
     = (1, \<lparr>inp = [], out = [], err = [], kern = (''/home'', [(''d'', 493)])\<rparr>)
   \<and> lsh_mkdir dirs_os [Some ''mkdir'', Some ''d'', Some ''e'', None]
       \<lparr>inp = [], out = [], err = [], kern = (''/home'', [(''d'', 493)])\<rparr>
     = (1, \<lparr>inp = [], out = [], err = ''lsh: File exists\<newline>'',
            kern = (''/home'', [(''d'', 493)])\<rparr>)"
  using extra_arguments_ignored [of sample_os "''cd''" "''/tmp''" "[Some ''x'', Some ''y'', None]"
      "sample_world []"]
    extra_arguments_ignored [of dirs_os "''cd''" "''d''" "[Some ''e'', None]"
      "\<lparr>inp = [], out = [], err = [], kern = (''/home'', [(''e'', 493)])\<rparr>"]
    extra_arguments_ignored [of dirs_os "''mkdir''" "''d''" "[Some ''e'', None]"
      "\<lparr>inp = [], out = [], err = [], kern = (''/home'', [])\<rparr>"]
    extra_arguments_ignored [of dirs_os "''mkdir''" "''d''" "[Some ''e'', None]"
      "\<lparr>inp = [], out = [], err = [], kern = (''/home'', [(''d'', 493)])\<rparr>"]
  by (simp add: sample_os_def sample_world_def dirs_os_def)

end
